theory Spec2Isabelle
  imports Main
begin

section \<open>Text as Python sees it\<close>

text \<open>
  A Python \<open>str\<close> is modelled as a \<open>string\<close> whose characters are the code points
  below 256. File contents are the text that Python's text-mode I/O delivers and accepts;
  the codec and the platform's newline translation lie outside the model.
\<close>

definition nl :: char where
  "nl = CHR 0x0A"

definition dquote :: char where
  "dquote = CHR 0x22"

text \<open>\<open>\d\<close> on a \<open>str\<close> pattern: the decimal digits; below 256 these are \<open>0\<close> to \<open>9\<close>.\<close>

definition is_digit :: "char \<Rightarrow> bool" where
  "is_digit c = (let n = (of_char c :: nat) in 48 \<le> n \<and> n \<le> 57)"

text \<open>
  \<open>\s\<close> and \<open>str.strip()\<close> share one notion of whitespace; below 256 it is
  TAB, LF, VT, FF, CR, the separators 0x1C to 0x1F, space, NEL and the no-break space.
\<close>

definition is_space :: "char \<Rightarrow> bool" where
  "is_space c = (let n = (of_char c :: nat) in
     (9 \<le> n \<and> n \<le> 13) \<or> (28 \<le> n \<and> n \<le> 31) \<or> n = 32 \<or> n = 133 \<or> n = 160)"

text \<open>Lower-casing as \<open>re.IGNORECASE\<close> folds a character below 256.\<close>

definition char_lower :: "char \<Rightarrow> char" where
  "char_lower c = (let n = (of_char c :: nat) in
     if (65 \<le> n \<and> n \<le> 90) \<or> (192 \<le> n \<and> n \<le> 222 \<and> n \<noteq> 215)
     then char_of (n + 32) else c)"

text \<open>\<open>str.strip()\<close> without arguments.\<close>

definition strip :: "string \<Rightarrow> string" where
  "strip s = rev (dropWhile is_space (rev (dropWhile is_space s)))"

text \<open>\<open>f.readline()\<close> on a freshly opened file: the text up to and including the first newline.\<close>

fun readline :: "string \<Rightarrow> string" where
  "readline [] = []"
| "readline (c # cs) = (if c = nl then [c] else c # readline cs)"

text \<open>
  \<open>str.replace(old, new)\<close>: a scan from the left that replaces each occurrence it meets
  and continues behind it. With an empty \<open>old\<close> Python inserts \<open>new\<close> around every
  character.
\<close>

fun py_replace :: "string \<Rightarrow> string \<Rightarrow> string \<Rightarrow> string" where
  "py_replace old new [] = (if old = [] then new else [])"
| "py_replace old new (c # cs) =
     (if old = [] then new @ c # py_replace old new cs
      else if take (length old) (c # cs) = old
        then new @ py_replace old new (drop (length old) (c # cs))
      else c # py_replace old new cs)"

section \<open>The regular expressions of the script\<close>

text \<open>
  The three patterns of the script use literals, the classes \<open>\d\<close>, \<open>\s\<close> and
  \<open>[^)]\<close> under the greedy \<open>*\<close> and \<open>+\<close>, one optional non-capturing group, at most
  one capturing group, and the anchors \<open>^\<close> and \<open>$\<close>.
\<close>

datatype cclass = Digit | Space | NoneOf string

fun in_class :: "cclass \<Rightarrow> char \<Rightarrow> bool" where
  "in_class Digit c = is_digit c"
| "in_class Space c = is_space c"
| "in_class (NoneOf cs) c = (c \<notin> set cs)"

datatype rx =
    Str string
  | Star cclass
  | Plus cclass
  | Opt rx
  | Grp rx
  | Bol
  | Eol
  | Seq rx rx

record flags =
  ignorecase :: bool
  multiline :: bool

definition no_flags :: flags where
  "no_flags = \<lparr>ignorecase = False, multiline = False\<rparr>"

definition lit_eq :: "flags \<Rightarrow> char \<Rightarrow> char \<Rightarrow> bool" where
  "lit_eq f l c = (if ignorecase f then char_lower l = char_lower c else l = c)"

text \<open>The character before the current position, after consuming \<open>u\<close>.\<close>

definition lastc :: "char option \<Rightarrow> string \<Rightarrow> char option" where
  "lastc p u = (if u = [] then p else Some (last u))"

text \<open>
  The backtracking matcher. At a position (the character \<open>p\<close> before it, the text \<open>s\<close>
  from it on) it lists every way the expression can match, as the consumed text and the
  text of group 1 if the group took part, in the order in which Python's engine tries
  them: greedy repetitions longest first, an optional group taken before it is skipped.
  \<open>$\<close> holds at the end of the text and before a newline that ends the text; with
  \<open>re.MULTILINE\<close> before every newline. \<open>^\<close> holds at the start of the text; with
  \<open>re.MULTILINE\<close> after every newline.
\<close>

fun rx_all :: "flags \<Rightarrow> rx \<Rightarrow> char option \<Rightarrow> string \<Rightarrow> (string \<times> string option) list" where
  "rx_all f (Str w) p s =
     (if length w \<le> length s \<and> list_all2 (lit_eq f) w (take (length w) s)
      then [(take (length w) s, None)] else [])"
| "rx_all f (Star k) p s =
     map (\<lambda>n. (take n s, None)) (rev [0 ..< Suc (length (takeWhile (in_class k) s))])"
| "rx_all f (Plus k) p s =
     map (\<lambda>n. (take n s, None)) (rev [1 ..< Suc (length (takeWhile (in_class k) s))])"
| "rx_all f (Opt r) p s = rx_all f r p s @ [([], None)]"
| "rx_all f (Grp r) p s = map (\<lambda>(u, g). (u, Some u)) (rx_all f r p s)"
| "rx_all f Bol p s =
     (if p = None \<or> (multiline f \<and> p = Some nl) then [([], None)] else [])"
| "rx_all f Eol p s =
     (if s = [] \<or> s = [nl] \<or> (multiline f \<and> take 1 s = [nl]) then [([], None)] else [])"
| "rx_all f (Seq a b) p s =
     concat (map (\<lambda>(u1, g1).
       map (\<lambda>(u2, g2). (u1 @ u2, case g2 of None \<Rightarrow> g1 | Some c \<Rightarrow> Some c))
         (rx_all f b (lastc p u1) (drop (length u1) s)))
       (rx_all f a p s))"

text \<open>A pattern written as the sequence of its parts.\<close>

fun cat :: "rx list \<Rightarrow> rx" where
  "cat [] = Str []"
| "cat [r] = r"
| "cat (r # rs) = Seq r (cat rs)"

text \<open>\<open>pattern.match(s)\<close>: the first match at the start of the text.\<close>

definition rx_match :: "flags \<Rightarrow> rx \<Rightarrow> string \<Rightarrow> (string \<times> string option) option" where
  "rx_match f r s = (case rx_all f r None s of [] \<Rightarrow> None | x # _ \<Rightarrow> Some x)"

text \<open>\<open>re.search(pattern, s, flags)\<close>: the first match at the leftmost position that has one.\<close>

fun search_from :: "flags \<Rightarrow> rx \<Rightarrow> char option \<Rightarrow> string \<Rightarrow> (string \<times> string option) option" where
  "search_from f r p [] = (case rx_all f r p [] of [] \<Rightarrow> None | x # _ \<Rightarrow> Some x)"
| "search_from f r p (c # cs) =
     (case rx_all f r p (c # cs) of [] \<Rightarrow> search_from f r (Some c) cs | x # _ \<Rightarrow> Some x)"

definition rx_search :: "flags \<Rightarrow> rx \<Rightarrow> string \<Rightarrow> (string \<times> string option) option" where
  "rx_search f r s = search_from f r None s"

text \<open>\<open>match.group(1)\<close>; the patterns it is applied to always set the group.\<close>

definition group1 :: "string \<times> string option \<Rightarrow> string" where
  "group1 m = (case snd m of None \<Rightarrow> [] | Some g \<Rightarrow> g)"

text \<open>\<^verbatim>\<open>^\d+\.\d+\.\d+(?:\.\d+)?$\<close>\<close>

definition version_pattern :: rx where
  "version_pattern =
     cat [Bol, Plus Digit, Str ''.'', Plus Digit, Str ''.'', Plus Digit,
          Opt (cat [Str ''.'', Plus Digit]), Eol]"

text \<open>\<^verbatim>\<open>PROJECT\s*\([^)]*VERSION\s+(\d+\.\d+\.\d+)[^)]*\)\<close>\<close>

definition project_version_pattern :: rx where
  "project_version_pattern =
     cat [Str ''PROJECT'', Star Space, Str ''('', Star (NoneOf '')''), Str ''VERSION'',
          Plus Space, Grp (cat [Plus Digit, Str ''.'', Plus Digit, Str ''.'', Plus Digit]),
          Star (NoneOf '')''), Str '')'']"

text \<open>\<^verbatim>\<open>SET\s*\(VERSION_CPPFIX\s*"(\d+)"\s*\)\<close>\<close>

definition cpp_fix_pattern :: rx where
  "cpp_fix_pattern =
     cat [Str ''SET'', Star Space, Str ''(VERSION_CPPFIX'', Star Space, Str [dquote],
          Grp (Plus Digit), Str [dquote], Star Space, Str '')'']"

section \<open>The file system\<close>

text \<open>
  A path names at most one file. A file has its text and two permissions; reading an
  unreadable file and writing an unwritable one raise \<open>OSError\<close> (\<open>IOError\<close>).
\<close>

record node =
  content :: string
  readable :: bool
  writable :: bool

type_synonym filesystem = "string \<rightharpoonup> node"

datatype error =
    SourceFileMissing string
  | TargetFileMissing string
  | VersionNotFound
  | InvalidVersionFormat string
  | EmptyProjectName
  | ReadError
  | WriteError

definition path_exists :: "filesystem \<Rightarrow> string \<Rightarrow> bool" where
  "path_exists fs p = (fs p \<noteq> None)"

definition read_text :: "filesystem \<Rightarrow> string \<Rightarrow> string option" where
  "read_text fs p =
     (case fs p of None \<Rightarrow> None
      | Some n \<Rightarrow> if readable n then Some (content n) else None)"

definition write_text :: "filesystem \<Rightarrow> string \<Rightarrow> string \<Rightarrow> filesystem option" where
  "write_text fs p s =
     (case fs p of
        None \<Rightarrow> Some (fs(p \<mapsto> \<lparr>content = s, readable = True, writable = True\<rparr>))
      | Some n \<Rightarrow> if writable n then Some (fs(p \<mapsto> n\<lparr>content := s\<rparr>)) else None)"

section \<open>DoxyfileUpdater\<close>

definition validate_version :: "string \<Rightarrow> bool" where
  "validate_version version = (rx_match no_flags version_pattern version \<noteq> None)"

text \<open>
  \<open>_parse_project_name\<close>: \<open>FileNotFoundError\<close> is \<open>SourceFileMissing\<close>, the
  re-raised \<open>IOError\<close> is \<open>ReadError\<close>, \<open>ValueError\<close> is \<open>EmptyProjectName\<close>.
\<close>

definition parse_project_name :: "filesystem \<Rightarrow> string \<Rightarrow> error + string" where
  "parse_project_name fs readme_file =
     (if \<not> path_exists fs readme_file then Inl (SourceFileMissing readme_file)
      else case read_text fs readme_file of
        None \<Rightarrow> Inl ReadError
      | Some text \<Rightarrow>
          let first_line = strip (readline text);
              project_name = strip (py_replace ''#'' [] first_line)
          in if project_name = [] then Inl EmptyProjectName else Inr project_name)"

text \<open>
  \<open>_parse_cmake_version\<close>: the two \<open>VersionError\<close>s are \<open>VersionNotFound\<close> and
  \<open>InvalidVersionFormat\<close>. The project declaration is searched with
  \<open>re.MULTILINE | re.IGNORECASE\<close>, the fix level without flags.
\<close>

definition parse_cmake_version :: "filesystem \<Rightarrow> string \<Rightarrow> error + string" where
  "parse_cmake_version fs cmake_file =
     (if \<not> path_exists fs cmake_file then Inl (SourceFileMissing cmake_file)
      else case read_text fs cmake_file of
        None \<Rightarrow> Inl ReadError
      | Some text \<Rightarrow>
          (case rx_search \<lparr>ignorecase = True, multiline = True\<rparr> project_version_pattern text of
             None \<Rightarrow> Inl VersionNotFound
           | Some version_match \<Rightarrow>
               let version =
                     (case rx_search no_flags cpp_fix_pattern text of
                        None \<Rightarrow> group1 version_match
                      | Some cpp_fix_match \<Rightarrow>
                          group1 version_match @ ''.'' @ group1 cpp_fix_match)
               in if rx_match no_flags version_pattern version = None
                  then Inl (InvalidVersionFormat version) else Inr version))"

text \<open>Python's truth value of an \<open>Optional[str]\<close>: \<open>None\<close> and the empty string are false.\<close>

fun truthy :: "string option \<Rightarrow> bool" where
  "truthy None = False"
| "truthy (Some v) = (v \<noteq> [])"

definition str_of :: "string option \<Rightarrow> string" where
  "str_of version = (case version of None \<Rightarrow> [] | Some v \<Rightarrow> v)"

text \<open>
  The first two statements of \<open>update_doxyfile\<close> settle the version: an explicit one is
  validated, a missing or empty one is taken from \<open>CMakeLists.txt\<close>.
\<close>

definition resolve_version :: "filesystem \<Rightarrow> string option \<Rightarrow> error + string" where
  "resolve_version fs version =
     (if truthy version \<and> \<not> validate_version (str_of version)
      then Inl (InvalidVersionFormat (str_of version))
      else if \<not> truthy version then parse_cmake_version fs ''CMakeLists.txt''
      else Inr (str_of version))"

text \<open>
  \<open>update_doxyfile\<close> returns its outcome and the file system it leaves behind. The one
  \<open>except IOError\<close> around the read and the write of the target is \<open>WriteError\<close>.
\<close>

definition update_doxyfile :: "filesystem \<Rightarrow> string \<Rightarrow> string option \<Rightarrow> (error + unit) \<times> filesystem" where
  "update_doxyfile fs doxyfile_path version =
     (case resolve_version fs version of
        Inl e \<Rightarrow> (Inl e, fs)
      | Inr v \<Rightarrow>
          (case parse_project_name fs ''README.md'' of
             Inl e \<Rightarrow> (Inl e, fs)
           | Inr project_name \<Rightarrow>
               if \<not> path_exists fs doxyfile_path
               then (Inl (TargetFileMissing doxyfile_path), fs)
               else case read_text fs doxyfile_path of
                 None \<Rightarrow> (Inl WriteError, fs)
               | Some text \<Rightarrow>
                   let updated_content =
                         py_replace ''%PROJECT_NAME%'' project_name
                           (py_replace ''%PROJECT_VERSION%'' v text)
                   in case write_text fs doxyfile_path updated_content of
                        None \<Rightarrow> (Inl WriteError, fs)
                      | Some fs' \<Rightarrow> (Inr (), fs')))"

section \<open>Vocabulary of the specification\<close>

text \<open>Python's \<open>old in s\<close>: the text \<open>old\<close> occurs literally in \<open>s\<close>.\<close>

fun occurs_in :: "string \<Rightarrow> string \<Rightarrow> bool" where
  "occurs_in old [] = (old = [])"
| "occurs_in old (c # cs) = (take (length old) (c # cs) = old \<or> occurs_in old cs)"

text \<open>The pieces of a text between the occurrences of a separator character.\<close>

definition split_on :: "char \<Rightarrow> string \<Rightarrow> string list" where
  "split_on c s = foldr (\<lambda>x ls. if x = c then [] # ls else (x # hd ls) # tl ls) s [[]]"

text \<open>\<open>D\<close>: one or more digits.\<close>

definition digits :: "string \<Rightarrow> bool" where
  "digits d = (d \<noteq> [] \<and> list_all is_digit d)"

text \<open>The specification's version shape: \<open>D.D.D\<close> or \<open>D.D.D.D\<close>.\<close>

definition is_version_shape :: "string \<Rightarrow> bool" where
  "is_version_shape s =
     (let parts = split_on (CHR ''.'') s
      in (length parts = 3 \<or> length parts = 4) \<and> list_all digits parts)"


text \<open>\<open>X.Y.Z\<close>: three runs of digits separated by dots.\<close>

definition dotted3 :: "string \<Rightarrow> bool" where
  "dotted3 v = (\<exists>a b c. digits a \<and> digits b \<and> digits c \<and> v = a @ ''.'' @ b @ ''.'' @ c)"

text \<open>The optional fourth component: nothing, or a dot and digits.\<close>

definition fix_suffix :: "string \<Rightarrow> bool" where
  "fix_suffix x = (x = [] \<or> (\<exists>d. digits d \<and> x = ''.'' @ d))"

text \<open>What may follow a match of \<open>$\<close>: nothing, or one final newline.\<close>

definition text_end :: "string \<Rightarrow> bool" where
  "text_end t = (t = [] \<or> t = [nl])"

text \<open>The text \<open>a\<close> spells the word \<open>w\<close>, letter case apart.\<close>

definition same_letters :: "string \<Rightarrow> string \<Rightarrow> bool" where
  "same_letters w a = (map char_lower a = map char_lower w)"

text \<open>A possibly empty run of whitespace.\<close>

definition spaces :: "string \<Rightarrow> bool" where
  "spaces ws = list_all is_space ws"

text \<open>A text without a closing parenthesis.\<close>

definition no_rparen :: "string \<Rightarrow> bool" where
  "no_rparen m = (CHR '')'' \<notin> set m)"

text \<open>
  A declaration \<open>PROJECT(... VERSION X.Y.Z ...)\<close> at the start of \<open>t\<close>: the word
  \<open>PROJECT\<close> in any letter case, optional whitespace, an opening parenthesis, and before
  the next closing parenthesis the word \<open>VERSION\<close> in any letter case, whitespace and
  the dotted value \<open>ver\<close>.
\<close>

definition project_declaration_at :: "string \<Rightarrow> string \<Rightarrow> bool" where
  "project_declaration_at t ver =
     (\<exists>kw ws mid kw2 ws2 rest post.
        same_letters ''PROJECT'' kw \<and> spaces ws \<and> no_rparen mid \<and>
        same_letters ''VERSION'' kw2 \<and> ws2 \<noteq> [] \<and> spaces ws2 \<and> dotted3 ver \<and>
        no_rparen rest \<and>
        t = kw @ ws @ ''('' @ mid @ kw2 @ ws2 @ ver @ rest @ '')'' @ post)"

text \<open>The text contains such a declaration with the value \<open>ver\<close>.\<close>

definition project_declaration :: "string \<Rightarrow> string \<Rightarrow> bool" where
  "project_declaration text ver = (\<exists>pre t. text = pre @ t \<and> project_declaration_at t ver)"

text \<open>
  A declaration \<open>SET(VERSION_CPPFIX "N")\<close> at the start of \<open>t\<close>, with optional
  whitespace after \<open>SET\<close>, after \<open>VERSION_CPPFIX\<close> and before the closing
  parenthesis, and the digits \<open>n\<close> between the quotes.
\<close>

definition fix_declaration_at :: "string \<Rightarrow> string \<Rightarrow> bool" where
  "fix_declaration_at t n =
     (\<exists>ws1 ws2 ws3 post. spaces ws1 \<and> spaces ws2 \<and> digits n \<and> spaces ws3 \<and>
        t = ''SET'' @ ws1 @ ''(VERSION_CPPFIX'' @ ws2 @ [dquote] @ n @ [dquote] @ ws3 @ '')'' @ post)"

text \<open>The text contains such a declaration with the fix level \<open>n\<close>.\<close>

definition fix_declaration :: "string \<Rightarrow> string \<Rightarrow> bool" where
  "fix_declaration text n = (\<exists>pre t. text = pre @ t \<and> fix_declaration_at t n)"

text \<open>\<open>re.MULTILINE | re.IGNORECASE\<close>\<close>

definition ic_flags :: flags where
  "ic_flags = \<lparr>ignorecase = True, multiline = True\<rparr>"

section \<open>What a match is\<close>

text \<open>
  The declarative reading of the expressions: \<open>matches f r p u t g\<close> holds when \<open>r\<close>
  matches the text \<open>u\<close>, with the character \<open>p\<close> before it and the text \<open>t\<close> after it,
  and leaves group 1 as \<open>g\<close>. The matcher is proved to list exactly these matches.
\<close>

fun matches :: "flags \<Rightarrow> rx \<Rightarrow> char option \<Rightarrow> string \<Rightarrow> string \<Rightarrow> string option \<Rightarrow> bool" where
  "matches f (Str w) p u t g = (g = None \<and> list_all2 (lit_eq f) w u)"
| "matches f (Star k) p u t g = (g = None \<and> list_all (in_class k) u)"
| "matches f (Plus k) p u t g = (g = None \<and> u \<noteq> [] \<and> list_all (in_class k) u)"
| "matches f (Opt r) p u t g = (matches f r p u t g \<or> (u = [] \<and> g = None))"
| "matches f (Grp r) p u t g = (g = Some u \<and> (\<exists>g'. matches f r p u t g'))"
| "matches f Bol p u t g = (u = [] \<and> g = None \<and> (p = None \<or> (multiline f \<and> p = Some nl)))"
| "matches f Eol p u t g =
     (u = [] \<and> g = None \<and> (t = [] \<or> t = [nl] \<or> (multiline f \<and> take 1 t = [nl])))"
| "matches f (Seq a b) p u t g =
     (\<exists>u1 u2 g1 g2. u = u1 @ u2 \<and> matches f a p u1 (u2 @ t) g1 \<and>
        matches f b (lastc p u1) u2 t g2 \<and>
        g = (case g2 of None \<Rightarrow> g1 | Some c \<Rightarrow> Some c))"

section \<open>Example file systems\<close>

definition regular_file :: "string \<Rightarrow> node" where
  "regular_file s = \<lparr>content = s, readable = True, writable = True\<rparr>"

definition readme_demo :: string where
  "readme_demo = ''# Demo'' @ [nl] @ ''A demonstration project.'' @ [nl]"

definition cmake_plain :: string where
  "cmake_plain = ''project(Foo VERSION 1.2.3)'' @ [nl]"

definition cmake_lower_fix :: string where
  "cmake_lower_fix =
     ''project(Foo VERSION 1.2.3)'' @ [nl] @
     ''set(VERSION_CPPFIX '' @ [dquote] @ ''4'' @ [dquote] @ '')'' @ [nl]"

definition cmake_upper_fix :: string where
  "cmake_upper_fix =
     ''project(Foo VERSION 1.2.3)'' @ [nl] @
     ''SET(VERSION_CPPFIX '' @ [dquote] @ ''4'' @ [dquote] @ '')'' @ [nl]"

definition doxyfile_demo :: string where
  "doxyfile_demo = ''Version: %PROJECT_VERSION%, Name: %PROJECT_NAME%''"

definition fs_demo :: filesystem where
  "fs_demo = [''README.md'' \<mapsto> regular_file readme_demo,
              ''CMakeLists.txt'' \<mapsto> regular_file cmake_plain,
              ''Doxyfile'' \<mapsto> regular_file doxyfile_demo]"

definition fs_with_cmake :: "string \<Rightarrow> filesystem" where
  "fs_with_cmake text = fs_demo(''CMakeLists.txt'' \<mapsto> regular_file text)"


definition fs_no_cmake :: filesystem where
  "fs_no_cmake = fs_demo(''CMakeLists.txt'' := None)"

section \<open>Facts about the text operations\<close>

lemmas eval_defs = update_doxyfile_def resolve_version_def parse_cmake_version_def
  parse_project_name_def path_exists_def read_text_def write_text_def validate_version_def
  str_of_def regular_file_def


lemma py_replace_first:
  "old \<noteq> [] \<Longrightarrow> \<not> occurs_in old (a @ butlast old) \<Longrightarrow>
   py_replace old new (a @ old @ b) = a @ new @ py_replace old new b"
proof (induction a)
  case Nil
  then show ?case by (cases old) auto
next
  case (Cons x a)
  have "take (length old) (x # a @ old @ b) = take (length old) (x # a @ butlast old)"
    using Cons.prems(1) by (simp add: butlast_conv_take take_Cons')
  then show ?case using Cons by auto
qed













section \<open>Facts about the matcher\<close>

lemma take_le_takeWhile:
  "(\<exists>n \<le> length (takeWhile P s). u = take n s) \<longleftrightarrow> (\<exists>t. s = u @ t \<and> list_all P u)"
proof
  assume "\<exists>n \<le> length (takeWhile P s). u = take n s"
  then obtain n where n: "n \<le> length (takeWhile P s)" "u = take n s" by blast
  have "take n s = take n (takeWhile P s)"
    using n(1) by (metis takeWhile_dropWhile_id take_append diff_is_0_eq take_0 append_Nil2)
  then have "set u \<subseteq> set (takeWhile P s)" using n(2) by (metis set_take_subset)
  then have "list_all P u" by (auto simp: list_all_iff dest: set_takeWhileD)
  moreover have "s = u @ drop n s" using n(2) by simp
  ultimately show "\<exists>t. s = u @ t \<and> list_all P u" by blast
next
  assume "\<exists>t. s = u @ t \<and> list_all P u"
  then obtain t where t: "s = u @ t" "list_all P u" by blast
  then have "takeWhile P s = u @ takeWhile P t"
    by (simp add: takeWhile_append2 list_all_iff)
  then have "length u \<le> length (takeWhile P s)" by simp
  moreover have "u = take (length u) s" using t(1) by simp
  ultimately show "\<exists>n \<le> length (takeWhile P s). u = take n s" by blast
qed

lemma rx_all_Star:
  "(u, g) \<in> set (rx_all f (Star k) p s) \<longleftrightarrow> (\<exists>t. s = u @ t \<and> g = None \<and> list_all (in_class k) u)"
proof -
  have "(u, g) \<in> set (rx_all f (Star k) p s) \<longleftrightarrow>
      g = None \<and> (\<exists>n \<le> length (takeWhile (in_class k) s). u = take n s)"
    by (auto simp del: upt_Suc simp: less_Suc_eq_le)
  then show ?thesis using take_le_takeWhile [of "in_class k" s u] by auto
qed

lemma rx_all_Plus:
  "(u, g) \<in> set (rx_all f (Plus k) p s) \<longleftrightarrow>
     (\<exists>t. s = u @ t \<and> g = None \<and> u \<noteq> [] \<and> list_all (in_class k) u)"
proof -
  have "(u, g) \<in> set (rx_all f (Plus k) p s) \<longleftrightarrow>
      g = None \<and> (\<exists>n \<le> length (takeWhile (in_class k) s). 1 \<le> n \<and> u = take n s)"
    by (auto simp del: upt_Suc simp: less_Suc_eq_le)
  also have "\<dots> \<longleftrightarrow> g = None \<and> u \<noteq> [] \<and> (\<exists>n \<le> length (takeWhile (in_class k) s). u = take n s)"
  proof (cases "s = []")
    case True then show ?thesis by auto
  next
    case False
    then have "\<And>n. take n s \<noteq> [] \<longleftrightarrow> 1 \<le> n" by (cases s) (auto simp: Suc_le_eq)
    then show ?thesis by metis
  qed
  finally show ?thesis using take_le_takeWhile [of "in_class k" s u] by auto
qed

lemma rx_all_Str:
  "(u, g) \<in> set (rx_all f (Str w) p s) \<longleftrightarrow> (\<exists>t. s = u @ t \<and> g = None \<and> list_all2 (lit_eq f) w u)"
proof
  assume "(u, g) \<in> set (rx_all f (Str w) p s)"
  then have a: "length w \<le> length s" "list_all2 (lit_eq f) w (take (length w) s)"
     "u = take (length w) s" "g = None"
    by (auto split: if_splits)
  then have "s = u @ drop (length w) s" by simp
  with a show "\<exists>t. s = u @ t \<and> g = None \<and> list_all2 (lit_eq f) w u" by blast
next
  assume "\<exists>t. s = u @ t \<and> g = None \<and> list_all2 (lit_eq f) w u"
  then obtain t where t: "s = u @ t" "g = None" "list_all2 (lit_eq f) w u" by blast
  then have "length w = length u" by (simp add: list_all2_lengthD)
  then show "(u, g) \<in> set (rx_all f (Str w) p s)" using t by simp
qed

lemma rx_all_iff:
  "(u, g) \<in> set (rx_all f r p s) \<longleftrightarrow> (\<exists>t. s = u @ t \<and> matches f r p u t g)"
proof (induction r arbitrary: p s u g)
  case (Str w)
  show ?case using rx_all_Str by simp
next
  case (Star k)
  show ?case using rx_all_Star by simp
next
  case (Plus k)
  show ?case using rx_all_Plus by simp
next
  case (Opt r)
  then show ?case by auto
next
  case (Grp r)
  have "(u, g) \<in> set (rx_all f (Grp r) p s) \<longleftrightarrow>
      g = Some u \<and> (\<exists>g'. (u, g') \<in> set (rx_all f r p s))"
    by force
  then show ?case using Grp.IH by auto
next
  case Bol
  show ?case by auto
next
  case Eol
  show ?case by auto
next
  case (Seq a b)
  show ?case
  proof
    assume "(u, g) \<in> set (rx_all f (Seq a b) p s)"
    then obtain u1 g1 u2 g2 where m: "(u1, g1) \<in> set (rx_all f a p s)"
      "(u2, g2) \<in> set (rx_all f b (lastc p u1) (drop (length u1) s))"
      "u = u1 @ u2" "g = (case g2 of None \<Rightarrow> g1 | Some c \<Rightarrow> Some c)"
      by auto
    from m(1) obtain t1 where t1: "s = u1 @ t1" "matches f a p u1 t1 g1"
      using Seq.IH(1) by blast
    from m(2) t1(1) obtain t where t: "t1 = u2 @ t" "matches f b (lastc p u1) u2 t g2"
      using Seq.IH(2) by auto
    show "\<exists>t. s = u @ t \<and> matches f (Seq a b) p u t g"
      using m(3,4) t1 t by auto
  next
    assume "\<exists>t. s = u @ t \<and> matches f (Seq a b) p u t g"
    then obtain t u1 u2 g1 g2 where m: "s = u @ t" "u = u1 @ u2" "matches f a p u1 (u2 @ t) g1"
      "matches f b (lastc p u1) u2 t g2" "g = (case g2 of None \<Rightarrow> g1 | Some c \<Rightarrow> Some c)"
      by auto
    have 1: "(u1, g1) \<in> set (rx_all f a p s)" using m(1,2,3) Seq.IH(1) by auto
    have 2: "(u2, g2) \<in> set (rx_all f b (lastc p u1) (drop (length u1) s))"
      using m(1,2,4) Seq.IH(2) by auto
    show "(u, g) \<in> set (rx_all f (Seq a b) p s)"
      using 1 2 m(2,5) by force
  qed
qed


lemma search_from_Some:
  "search_from f r p s = Some m \<Longrightarrow>
   \<exists>pre t. s = pre @ t \<and> m \<in> set (rx_all f r (lastc p pre) t)"
proof (induction s arbitrary: p)
  case Nil
  then show ?case by (auto simp: lastc_def split: list.splits)
next
  case (Cons c cs)
  show ?case
  proof (cases "rx_all f r p (c # cs)")
    case Nil
    then have "search_from f r (Some c) cs = Some m" using Cons.prems by simp
    then obtain pre t where "cs = pre @ t" "m \<in> set (rx_all f r (lastc (Some c) pre) t)"
      using Cons.IH by blast
    moreover have "lastc p (c # pre) = lastc (Some c) pre" by (simp add: lastc_def)
    ultimately have "c # cs = (c # pre) @ t \<and> m \<in> set (rx_all f r (lastc p (c # pre)) t)"
      by simp
    then show ?thesis by blast
  next
    case (Cons x xs)
    then have "m = x" using Cons.prems by simp
    then have "c # cs = [] @ (c # cs) \<and> m \<in> set (rx_all f r (lastc p []) (c # cs))"
      using Cons by (simp add: lastc_def)
    then show ?thesis by blast
  qed
qed

lemma case_option_id: "(case g of None \<Rightarrow> None | Some x \<Rightarrow> Some x) = g"
  by (cases g) auto

lemma matches_Seq_Str:
  "matches f (Seq (Str w) r) p u t g \<longleftrightarrow>
     (\<exists>a u'. list_all2 (lit_eq f) w a \<and> u = a @ u' \<and> matches f r (lastc p a) u' t g)"
  by (auto simp: case_option_id)

lemma matches_Seq_Star:
  "matches f (Seq (Star k) r) p u t g \<longleftrightarrow>
     (\<exists>a u'. list_all (in_class k) a \<and> u = a @ u' \<and> matches f r (lastc p a) u' t g)"
  by (auto simp: case_option_id)

lemma matches_Seq_Plus:
  "matches f (Seq (Plus k) r) p u t g \<longleftrightarrow>
     (\<exists>a u'. a \<noteq> [] \<and> list_all (in_class k) a \<and> u = a @ u' \<and> matches f r (lastc p a) u' t g)"
  by (auto simp: case_option_id)

lemma matches_Seq_Bol:
  "matches f (Seq Bol r) p u t g \<longleftrightarrow>
     ((p = None \<or> (multiline f \<and> p = Some nl)) \<and> matches f r p u t g)"
  by (auto simp: case_option_id lastc_def)

lemma lit_eq_plain: "list_all2 (lit_eq no_flags) w u \<longleftrightarrow> u = w"
proof -
  have "lit_eq no_flags = (=)" by (auto simp: lit_eq_def fun_eq_iff no_flags_def)
  then show ?thesis by (auto simp: list.rel_eq)
qed

lemma no_flags_simps: "\<not> ignorecase no_flags" "\<not> multiline no_flags"
  by (simp_all add: no_flags_def)

lemma in_class_simps: "in_class Digit = is_digit" "in_class Space = is_space"
  by (auto simp: fun_eq_iff)

lemma matches_version_tail:
  "matches no_flags (Seq (Opt (Seq (Str ''.'') (Plus Digit))) Eol) p u t g \<longleftrightarrow>
     g = None \<and> (u = [] \<or> (\<exists>d. digits d \<and> u = ''.'' @ d)) \<and> (t = [] \<or> t = [nl])"
  by (auto simp: lit_eq_plain no_flags_simps digits_def case_option_id in_class_simps)

lemma char_lower_low:
  assumes "(of_char x :: nat) < 65"
  shows "char_lower c = x \<longleftrightarrow> c = x"
proof
  assume a: "char_lower c = x"
  show "c = x"
  proof (rule ccontr)
    assume n: "c \<noteq> x"
    let ?n = "of_char c :: nat"
    from a n have up: "(65 \<le> ?n \<and> ?n \<le> 90) \<or> (192 \<le> ?n \<and> ?n \<le> 222 \<and> ?n \<noteq> 215)"
      and e: "char_of (?n + 32) = x"
      by (auto simp: char_lower_def Let_def split: if_splits)
    from e have "(of_char (char_of (?n + 32) :: char) :: nat) = of_char x" by simp
    then have "(?n + 32) mod 256 = of_char x" by (simp add: of_char_of)
    with up assms show False by auto
  qed
next
  assume "c = x"
  then show "char_lower c = x" using assms by (simp add: char_lower_def Let_def)
qed

lemma lit_eq_low:
  assumes "(of_char x :: nat) < 65"
  shows "lit_eq f x c \<longleftrightarrow> c = x"
proof (cases "ignorecase f")
  case True
  have "char_lower x = x" using char_lower_low [OF assms, of x] by simp
  then show ?thesis using True char_lower_low [OF assms, of c] by (auto simp add: lit_eq_def)
next
  case False
  then show ?thesis by (auto simp add: lit_eq_def)
qed

lemma lit_eq_single:
  assumes "(of_char x :: nat) < 65"
  shows "list_all2 (lit_eq f) [x] a \<longleftrightarrow> a = [x]"
  using lit_eq_low [OF assms] by (auto simp add: list_all2_Cons1)

lemma lit_eq_dot: "list_all2 (lit_eq f) ''.'' a \<longleftrightarrow> a = ''.''"
  by (rule lit_eq_single) simp

lemma lit_eq_lparen: "list_all2 (lit_eq f) ''('' a \<longleftrightarrow> a = ''(''"
  by (rule lit_eq_single) simp

lemma lit_eq_rparen: "list_all2 (lit_eq f) '')'' a \<longleftrightarrow> a = '')''"
  by (rule lit_eq_single) simp

lemma matches_digits_dot:
  "matches f (Seq (Plus Digit) (Seq (Str ''.'') r)) p u t g \<longleftrightarrow>
     (\<exists>a u'. digits a \<and> u = a @ ''.'' @ u' \<and> matches f r (lastc (lastc p a) ''.'') u' t g)"
  (is "?L \<longleftrightarrow> ?R")
proof
  assume ?L
  then obtain a u1 where 1: "a \<noteq> []" "list_all is_digit a" "u = a @ u1"
      "matches f (Seq (Str ''.'') r) (lastc p a) u1 t g"
    unfolding matches_Seq_Plus in_class_simps by (elim exE conjE) (rule that)
  from 1(4) obtain u' where 2: "u1 = ''.'' @ u'" "matches f r (lastc (lastc p a) ''.'') u' t g"
    unfolding matches_Seq_Str lit_eq_dot by (elim exE conjE) (simp only: that)
  have "digits a" using 1(1,2) by (simp add: digits_def)
  moreover have "u = a @ ''.'' @ u'" using 1(3) 2(1) by (simp only:)
  ultimately show ?R using 2(2) by (intro exI conjI)
next
  assume ?R
  then obtain a u' where 1: "digits a" "u = a @ ''.'' @ u'"
      "matches f r (lastc (lastc p a) ''.'') u' t g"
    by (elim exE conjE) (rule that)
  have "matches f (Seq (Str ''.'') r) (lastc p a) (''.'' @ u') t g"
    unfolding matches_Seq_Str lit_eq_dot using 1(3) by blast
  moreover have "a \<noteq> []" "list_all is_digit a" using 1(1) by (simp_all add: digits_def)
  ultimately show ?L unfolding matches_Seq_Plus in_class_simps 1(2)
    by blast
qed

lemma matches_Plus_digits: "matches f (Plus Digit) p u t g \<longleftrightarrow> g = None \<and> digits u"
  by (auto simp: digits_def in_class_simps)

lemma matches_dotted3:
  "matches f (cat [Plus Digit, Str ''.'', Plus Digit, Str ''.'', Plus Digit]) p u t g \<longleftrightarrow>
     g = None \<and> dotted3 u"
  unfolding cat.simps matches_digits_dot matches_Plus_digits dotted3_def by blast

lemma matches_version_last:
  "matches no_flags (Seq (Plus Digit) (Seq (Opt (Seq (Str ''.'') (Plus Digit))) Eol)) p u t g
     \<longleftrightarrow> g = None \<and> text_end t \<and> (\<exists>c x. digits c \<and> fix_suffix x \<and> u = c @ x)"
  unfolding matches_Seq_Plus matches_version_tail in_class_simps digits_def
    fix_suffix_def [symmetric] text_end_def [symmetric]
  unfolding fix_suffix_def digits_def
  by blast

lemma matches_version_pattern:
  "matches no_flags version_pattern None u t g \<longleftrightarrow>
     g = None \<and> text_end t \<and>
     (\<exists>a b c x. digits a \<and> digits b \<and> digits c \<and> fix_suffix x \<and>
        u = a @ ''.'' @ b @ ''.'' @ c @ x)"
  unfolding version_pattern_def cat.simps matches_Seq_Bol matches_digits_dot matches_version_last
  by blast

lemma validate_version_iff:
  "validate_version s \<longleftrightarrow>
     (\<exists>a b c x e. digits a \<and> digits b \<and> digits c \<and> fix_suffix x \<and> text_end e \<and>
        s = a @ ''.'' @ b @ ''.'' @ c @ x @ e)"
  (is "_ \<longleftrightarrow> ?R")
proof -
  have 1: "validate_version s \<longleftrightarrow> (\<exists>u g. (u, g) \<in> set (rx_all no_flags version_pattern None s))"
    by (cases "rx_all no_flags version_pattern None s")
       (auto simp: validate_version_def rx_match_def)
  show ?thesis
  proof
    assume "validate_version s"
    then obtain u g t where "s = u @ t" "matches no_flags version_pattern None u t g"
      unfolding 1 rx_all_iff by blast
    then obtain a b c x where "text_end t" "digits a" "digits b" "digits c" "fix_suffix x"
      "s = (a @ ''.'' @ b @ ''.'' @ c @ x) @ t"
      unfolding matches_version_pattern by blast
    then show ?R by (metis append.assoc)
  next
    assume ?R
    then obtain a b c x e where h: "digits a" "digits b" "digits c" "fix_suffix x" "text_end e"
        "s = a @ ''.'' @ b @ ''.'' @ c @ x @ e"
      by blast
    have "matches no_flags version_pattern None (a @ ''.'' @ b @ ''.'' @ c @ x) e None"
      unfolding matches_version_pattern using h(1-5) by blast
    moreover have "s = (a @ ''.'' @ b @ ''.'' @ c @ x) @ e" using h(6) by simp
    ultimately show "validate_version s" unfolding 1 rx_all_iff by blast
  qed
qed

lemma lit_eq_ic: "list_all2 (lit_eq ic_flags) w a \<longleftrightarrow> same_letters w a"
proof -
  have "lit_eq ic_flags = (\<lambda>l c. char_lower l = char_lower c)"
    by (auto simp: lit_eq_def fun_eq_iff ic_flags_def)
  then have "list_all2 (lit_eq ic_flags) w a \<longleftrightarrow> list_all2 (=) (map char_lower w) (map char_lower a)"
    by (simp add: list.rel_map)
  then show ?thesis by (auto simp: list.rel_eq same_letters_def)
qed

lemma in_class_no_rparen: "list_all (in_class (NoneOf '')'')) a \<longleftrightarrow> no_rparen a"
  by (auto simp: no_rparen_def list_all_iff)

lemma matches_Seq_Grp:
  "matches f (Seq (Grp r) q) p u t g \<longleftrightarrow>
     (\<exists>a u' g' g2. matches f r p a (u' @ t) g' \<and> u = a @ u' \<and>
        matches f q (lastc p a) u' t g2 \<and>
        g = (case g2 of None \<Rightarrow> Some a | Some c \<Rightarrow> Some c))"
  by auto

lemma matches_Star_Str:
  "matches f (Seq (Star k) (Str w)) p u t g \<longleftrightarrow>
     g = None \<and> (\<exists>a b. list_all (in_class k) a \<and> list_all2 (lit_eq f) w b \<and> u = a @ b)"
  unfolding matches_Seq_Star by auto

lemma matches_project_tail:
  "matches f (cat [Grp (cat [Plus Digit, Str ''.'', Plus Digit, Str ''.'', Plus Digit]),
      Star (NoneOf '')''), Str '')'']) p u t g \<longleftrightarrow>
     (\<exists>ver rest. dotted3 ver \<and> no_rparen rest \<and> u = ver @ rest @ '')'' \<and> g = Some ver)"
  unfolding cat.simps matches_Seq_Grp matches_Star_Str matches_dotted3 [unfolded cat.simps]
    lit_eq_rparen in_class_no_rparen
  by auto

lemma matches_word_spaces:
  "matches ic_flags (Seq (Str w) (Seq (Star Space) r)) p u t g \<longleftrightarrow>
     (\<exists>kw ws u'. same_letters w kw \<and> spaces ws \<and> u = kw @ ws @ u' \<and>
        matches ic_flags r (lastc (lastc p kw) ws) u' t g)"
  unfolding matches_Seq_Str matches_Seq_Star lit_eq_ic in_class_simps spaces_def [symmetric]
  by blast

lemma matches_word_spaces1:
  "matches ic_flags (Seq (Str w) (Seq (Plus Space) r)) p u t g \<longleftrightarrow>
     (\<exists>kw ws u'. same_letters w kw \<and> ws \<noteq> [] \<and> spaces ws \<and> u = kw @ ws @ u' \<and>
        matches ic_flags r (lastc (lastc p kw) ws) u' t g)"
  unfolding matches_Seq_Str matches_Seq_Plus lit_eq_ic in_class_simps spaces_def [symmetric]
  by blast

lemma matches_lparen_inside:
  "matches f (Seq (Str ''('') (Seq (Star (NoneOf '')'')) r)) p u t g \<longleftrightarrow>
     (\<exists>mid u'. no_rparen mid \<and> u = ''('' @ mid @ u' \<and>
        matches f r (lastc (lastc p ''('') mid) u' t g)"
  unfolding matches_Seq_Str matches_Seq_Star lit_eq_lparen in_class_no_rparen
  by blast

lemma matches_project_pattern:
  "matches ic_flags project_version_pattern p u t g \<longleftrightarrow>
     (\<exists>kw ws mid kw2 ws2 ver rest.
        same_letters ''PROJECT'' kw \<and> spaces ws \<and> no_rparen mid \<and>
        same_letters ''VERSION'' kw2 \<and> ws2 \<noteq> [] \<and> spaces ws2 \<and> dotted3 ver \<and>
        no_rparen rest \<and>
        u = kw @ ws @ ''('' @ mid @ kw2 @ ws2 @ ver @ rest @ '')'' \<and> g = Some ver)"
  unfolding project_version_pattern_def cat.simps matches_word_spaces matches_word_spaces1
    matches_lparen_inside matches_project_tail [unfolded cat.simps]
proof (rule iffI; elim exE conjE)
  fix kw ws u1 mid u2 kw2 ws2 u3 ver rest
  assume h: "same_letters ''PROJECT'' kw" "spaces ws" "u = kw @ ws @ u1" "no_rparen mid"
    "u1 = ''('' @ mid @ u2" "same_letters ''VERSION'' kw2" "ws2 \<noteq> []" "spaces ws2"
    "u2 = kw2 @ ws2 @ u3" "dotted3 ver" "no_rparen rest" "u3 = ver @ rest @ '')''" "g = Some ver"
  have "u = kw @ ws @ ''('' @ mid @ kw2 @ ws2 @ ver @ rest @ '')''"
    unfolding h(3,5,9,12) by (rule refl)
  with h(1,2,4,6,7,8,10,11,13)
  show "\<exists>kw ws mid kw2 ws2 ver rest.
        same_letters ''PROJECT'' kw \<and> spaces ws \<and> no_rparen mid \<and>
        same_letters ''VERSION'' kw2 \<and> ws2 \<noteq> [] \<and> spaces ws2 \<and> dotted3 ver \<and>
        no_rparen rest \<and>
        u = kw @ ws @ ''('' @ mid @ kw2 @ ws2 @ ver @ rest @ '')'' \<and> g = Some ver"
    apply -
    apply (rule exI [of _ kw], rule exI [of _ ws], rule exI [of _ mid], rule exI [of _ kw2])
    apply (rule exI [of _ ws2], rule exI [of _ ver], rule exI [of _ rest])
    apply (intro conjI)
    apply assumption+
    done
next
  fix kw ws mid kw2 ws2 ver rest
  assume h: "same_letters ''PROJECT'' kw" "spaces ws" "no_rparen mid"
    "same_letters ''VERSION'' kw2" "ws2 \<noteq> []" "spaces ws2" "dotted3 ver" "no_rparen rest"
    "u = kw @ ws @ ''('' @ mid @ kw2 @ ws2 @ ver @ rest @ '')''" "g = Some ver"
  show "\<exists>kw ws u'. same_letters ''PROJECT'' kw \<and> spaces ws \<and> u = kw @ ws @ u' \<and>
       (\<exists>mid u'a. no_rparen mid \<and> u' = ''('' @ mid @ u'a \<and>
         (\<exists>kw ws u'. same_letters ''VERSION'' kw \<and> ws \<noteq> [] \<and> spaces ws \<and> u'a = kw @ ws @ u' \<and>
            (\<exists>ver rest. dotted3 ver \<and> no_rparen rest \<and> u' = ver @ rest @ '')'' \<and> g = Some ver)))"
    unfolding h(9)
    using h(1-8,10)
    apply -
    apply (rule exI [of _ kw], rule exI [of _ ws], rule exI, intro conjI)
       apply assumption
      apply assumption
     apply (rule refl)
    apply (rule exI [of _ mid], rule exI, intro conjI)
      apply assumption
     apply (rule refl)
    apply (rule exI [of _ kw2], rule exI [of _ ws2], rule exI, intro conjI)
        apply assumption
       apply assumption
      apply assumption
     apply (rule refl)
    apply (rule exI [of _ ver], rule exI [of _ rest], intro conjI)
       apply assumption
      apply assumption
     apply (rule refl)
    apply assumption
    done
qed

lemma matches_plain_spaces:
  "matches no_flags (Seq (Str w) (Seq (Star Space) r)) p u t g \<longleftrightarrow>
     (\<exists>ws u'. spaces ws \<and> u = w @ ws @ u' \<and>
        matches no_flags r (lastc (lastc p w) ws) u' t g)"
  unfolding matches_Seq_Str matches_Seq_Star lit_eq_plain in_class_simps spaces_def [symmetric]
  by blast

lemma matches_fix_tail:
  "matches no_flags (Seq (Str [dquote]) (Seq (Grp (Plus Digit)) (Seq (Str [dquote])
      (Seq (Star Space) (Str '')''))))) p u t g \<longleftrightarrow>
     (\<exists>n ws. digits n \<and> spaces ws \<and> u = [dquote] @ n @ [dquote] @ ws @ '')'' \<and> g = Some n)"
  unfolding matches_Seq_Str matches_Seq_Grp matches_Plus_digits matches_Star_Str lit_eq_plain
    in_class_simps spaces_def [symmetric]
  apply auto
  subgoal for n ws
    apply (rule exI [of _ n])
    apply auto
    done
  done

lemma matches_fix_pattern:
  "matches no_flags cpp_fix_pattern p u t g \<longleftrightarrow>
     (\<exists>ws1 ws2 n ws3. spaces ws1 \<and> spaces ws2 \<and> digits n \<and> spaces ws3 \<and>
        u = ''SET'' @ ws1 @ ''(VERSION_CPPFIX'' @ ws2 @ [dquote] @ n @ [dquote] @ ws3 @ '')'' \<and>
        g = Some n)"
  unfolding cpp_fix_pattern_def cat.simps matches_plain_spaces matches_fix_tail
  by blast

lemma rx_all_project:
  "(u, g) \<in> set (rx_all ic_flags project_version_pattern p s) \<longleftrightarrow>
     (\<exists>kw ws mid kw2 ws2 ver rest post.
        same_letters ''PROJECT'' kw \<and> spaces ws \<and> no_rparen mid \<and>
        same_letters ''VERSION'' kw2 \<and> ws2 \<noteq> [] \<and> spaces ws2 \<and> dotted3 ver \<and>
        no_rparen rest \<and>
        u = kw @ ws @ ''('' @ mid @ kw2 @ ws2 @ ver @ rest @ '')'' \<and> g = Some ver \<and>
        s = u @ post)"
  unfolding rx_all_iff matches_project_pattern by blast

lemma project_match_sound:
  assumes "m \<in> set (rx_all ic_flags project_version_pattern p s)"
  shows "project_declaration_at s (group1 m)"
proof -
  obtain u g where m: "m = (u, g)" by (cases m)
  from assms obtain kw ws mid kw2 ws2 ver rest post where h:
    "same_letters ''PROJECT'' kw" "spaces ws" "no_rparen mid"
    "same_letters ''VERSION'' kw2" "ws2 \<noteq> []" "spaces ws2" "dotted3 ver" "no_rparen rest"
    "u = kw @ ws @ ''('' @ mid @ kw2 @ ws2 @ ver @ rest @ '')''" "g = Some ver" "s = u @ post"
    unfolding m rx_all_project by blast
  have "s = kw @ ws @ ''('' @ mid @ kw2 @ ws2 @ ver @ rest @ '')'' @ post"
    unfolding h(11) h(9) by simp
  with h(1-8) have "project_declaration_at s ver"
    unfolding project_declaration_at_def by blast
  moreover have "group1 m = ver" by (simp add: m h(10) group1_def)
  ultimately show ?thesis by simp
qed


lemma rx_all_fix:
  "(u, g) \<in> set (rx_all no_flags cpp_fix_pattern p s) \<longleftrightarrow>
     (\<exists>ws1 ws2 n ws3 post. spaces ws1 \<and> spaces ws2 \<and> digits n \<and> spaces ws3 \<and>
        u = ''SET'' @ ws1 @ ''(VERSION_CPPFIX'' @ ws2 @ [dquote] @ n @ [dquote] @ ws3 @ '')'' \<and>
        g = Some n \<and> s = u @ post)"
  unfolding rx_all_iff matches_fix_pattern by blast

lemma fix_match_sound:
  assumes "m \<in> set (rx_all no_flags cpp_fix_pattern p s)"
  shows "fix_declaration_at s (group1 m)"
proof -
  obtain u g where m: "m = (u, g)" by (cases m)
  from assms obtain ws1 ws2 n ws3 post where h:
    "spaces ws1" "spaces ws2" "digits n" "spaces ws3"
    "u = ''SET'' @ ws1 @ ''(VERSION_CPPFIX'' @ ws2 @ [dquote] @ n @ [dquote] @ ws3 @ '')''"
    "g = Some n" "s = u @ post"
    unfolding m rx_all_fix by blast
  have "s = ''SET'' @ ws1 @ ''(VERSION_CPPFIX'' @ ws2 @ [dquote] @ n @ [dquote] @ ws3 @ '')'' @ post"
    unfolding h(7) h(5) by simp
  with h(1-4) have "fix_declaration_at s n"
    unfolding fix_declaration_at_def by blast
  moreover have "group1 m = n" by (simp add: m h(6) group1_def)
  ultimately show ?thesis by simp
qed


lemma project_search_Some:
  assumes "rx_search ic_flags project_version_pattern text = Some m"
  shows "project_declaration text (group1 m)"
proof -
  from search_from_Some [OF assms [unfolded rx_search_def]]
  obtain pre t where h: "text = pre @ t"
    "m \<in> set (rx_all ic_flags project_version_pattern (lastc None pre) t)"
    by (elim exE conjE)
  from project_match_sound [OF h(2)] h(1) show ?thesis
    unfolding project_declaration_def by (intro exI conjI)
qed


lemma fix_search_Some:
  assumes "rx_search no_flags cpp_fix_pattern text = Some m"
  shows "fix_declaration text (group1 m)"
proof -
  from search_from_Some [OF assms [unfolded rx_search_def]]
  obtain pre t where h: "text = pre @ t"
    "m \<in> set (rx_all no_flags cpp_fix_pattern (lastc None pre) t)"
    by (elim exE conjE)
  from fix_match_sound [OF h(2)] h(1) show ?thesis
    unfolding fix_declaration_def by (intro exI conjI)
qed


lemma project_declaration_dotted3: "project_declaration text ver \<Longrightarrow> dotted3 ver"
  unfolding project_declaration_def project_declaration_at_def by (elim exE conjE)

lemma fix_declaration_digits: "fix_declaration text n \<Longrightarrow> digits n"
  unfolding fix_declaration_def fix_declaration_at_def by (elim exE conjE)

lemma validate_dotted3: "dotted3 ver \<Longrightarrow> validate_version ver"
proof -
  assume "dotted3 ver"
  then obtain a b c where h: "digits a" "digits b" "digits c" "ver = a @ ''.'' @ b @ ''.'' @ c"
    unfolding dotted3_def by (elim exE conjE)
  have "fix_suffix []" "text_end []" by (simp_all add: fix_suffix_def text_end_def)
  moreover have "ver = a @ ''.'' @ b @ ''.'' @ c @ [] @ []" using h(4) by simp
  ultimately show ?thesis unfolding validate_version_iff using h(1-3) by blast
qed

lemma validate_dotted4: "dotted3 ver \<Longrightarrow> digits n \<Longrightarrow> validate_version (ver @ ''.'' @ n)"
proof -
  assume "dotted3 ver" and n: "digits n"
  then obtain a b c where h: "digits a" "digits b" "digits c" "ver = a @ ''.'' @ b @ ''.'' @ c"
    unfolding dotted3_def by (elim exE conjE)
  have "fix_suffix (''.'' @ n)" "text_end []" using n by (auto simp: fix_suffix_def text_end_def)
  moreover have "ver @ ''.'' @ n = a @ ''.'' @ b @ ''.'' @ c @ (''.'' @ n) @ []" using h(4) by simp
  ultimately show ?thesis unfolding validate_version_iff using h(1-3) by blast
qed

lemma parse_cmake_version_found:
  assumes "read_text fs cmake_file = Some text"
    and "rx_search ic_flags project_version_pattern text = Some m"
  shows "parse_cmake_version fs cmake_file =
           Inr (case rx_search no_flags cpp_fix_pattern text of
                  None \<Rightarrow> group1 m
                | Some m' \<Rightarrow> group1 m @ ''.'' @ group1 m')"
proof -
  have e: "path_exists fs cmake_file"
    using assms(1) by (auto simp: read_text_def path_exists_def split: option.splits)
  have d: "dotted3 (group1 m)"
    using project_search_Some [OF assms(2)] by (rule project_declaration_dotted3)
  have v: "rx_match no_flags version_pattern
      (case rx_search no_flags cpp_fix_pattern text of
         None \<Rightarrow> group1 m | Some m' \<Rightarrow> group1 m @ ''.'' @ group1 m') \<noteq> None"
  proof (cases "rx_search no_flags cpp_fix_pattern text")
    case None
    then show ?thesis using validate_dotted3 [OF d] by (simp add: validate_version_def)
  next
    case (Some m')
    have "digits (group1 m')" using fix_search_Some [OF Some] by (rule fix_declaration_digits)
    then show ?thesis using validate_dotted4 [OF d] Some by (simp add: validate_version_def)
  qed
  show ?thesis
    using e assms v
    by (simp add: parse_cmake_version_def ic_flags_def [symmetric] Let_def)
qed

lemma parse_cmake_version_not_found:
  assumes "read_text fs cmake_file = Some text"
    and "rx_search ic_flags project_version_pattern text = None"
  shows "parse_cmake_version fs cmake_file = Inl VersionNotFound"
proof -
  have e: "path_exists fs cmake_file"
    using assms(1) by (auto simp: read_text_def path_exists_def split: option.splits)
  show ?thesis
    using e assms by (simp add: parse_cmake_version_def ic_flags_def [symmetric])
qed

lemma parse_cmake_version_never_invalid:
  "parse_cmake_version fs cmake_file \<noteq> Inl (InvalidVersionFormat v)"
proof (cases "read_text fs cmake_file")
  case None
  then show ?thesis
    by (simp add: parse_cmake_version_def)
next
  case (Some body)
  note r = this
  show ?thesis
  proof (cases "rx_search ic_flags project_version_pattern body")
    case None
    then show ?thesis using parse_cmake_version_not_found [OF r] by simp
  next
    case (Some m)
    then show ?thesis using parse_cmake_version_found [OF r] by simp
  qed
qed

section \<open>Facts about the updater\<close>

lemma update_explicit:
  "v \<noteq> [] \<Longrightarrow>
   update_doxyfile fs p (Some v) =
     (if \<not> validate_version v then (Inl (InvalidVersionFormat v), fs)
      else case parse_project_name fs ''README.md'' of
        Inl e \<Rightarrow> (Inl e, fs)
      | Inr n \<Rightarrow>
          (case fs p of
             None \<Rightarrow> (Inl (TargetFileMissing p), fs)
           | Some nd \<Rightarrow>
               if readable nd \<and> writable nd
               then (Inr (), fs(p \<mapsto> nd\<lparr>content :=
                       py_replace ''%PROJECT_NAME%'' n
                         (py_replace ''%PROJECT_VERSION%'' v (content nd))\<rparr>))
               else (Inl WriteError, fs)))"
  by (auto simp: update_doxyfile_def resolve_version_def str_of_def path_exists_def
      read_text_def write_text_def split: sum.splits option.splits)

lemma parse_project_name_cong:
  "fs1 readme = fs2 readme \<Longrightarrow> parse_project_name fs1 readme = parse_project_name fs2 readme"
  by (simp add: parse_project_name_def path_exists_def read_text_def)

lemma composed_version_valid:
  assumes "rx_search ic_flags project_version_pattern body = Some m"
  shows "validate_version
           (case rx_search no_flags cpp_fix_pattern body of
              None \<Rightarrow> group1 m
            | Some m' \<Rightarrow> group1 m @ ''.'' @ group1 m')"
proof -
  have d: "dotted3 (group1 m)"
    using project_search_Some [OF assms] by (rule project_declaration_dotted3)
  show ?thesis
  proof (cases "rx_search no_flags cpp_fix_pattern body")
    case None
    then show ?thesis using validate_dotted3 [OF d] by simp
  next
    case (Some m')
    have "digits (group1 m')" using fix_search_Some [OF Some] by (rule fix_declaration_digits)
    then show ?thesis using validate_dotted4 [OF d] Some by simp
  qed
qed


section \<open>Facts about the examples\<close>

lemma demo_name: "parse_project_name fs_demo ''README.md'' = Inr ''Demo''"
  by code_simp

lemma demo_explicit_version: "resolve_version fs_demo (Some ''2.0.0'') = Inr ''2.0.0''"
  by code_simp

lemma bad_version_invalid: "\<not> validate_version ''bad-version''"
  by code_simp




lemma upper_fix_project_search:
  "rx_search ic_flags project_version_pattern cmake_upper_fix =
     Some (''project(Foo VERSION 1.2.3)'', Some ''1.2.3'')"
  by code_simp

lemma upper_fix_fix_search:
  "rx_search no_flags cpp_fix_pattern cmake_upper_fix =
     Some (''SET(VERSION_CPPFIX '' @ [dquote] @ ''4'' @ [dquote] @ '')'', Some ''4'')"
  by code_simp






section \<open>The patch operation\<close>



text \<open>
  C2. When the resolution of the version fails, the operation fails with the same error
  and the file system is as before; when the resolution of the project name fails, the
  operation fails and the file system is as before; an explicit version that does not
  validate fails with \<open>InvalidVersionFormat\<close> and the file system is as before.
\<close>

theorem resolution_failure_writes_nothing:
  "(resolve_version fs version = Inl e \<longrightarrow> update_doxyfile fs p version = (Inl e, fs)) \<and>
   (parse_project_name fs ''README.md'' = Inl e \<longrightarrow>
      (\<exists>e'. update_doxyfile fs p version = (Inl e', fs))) \<and>
   (truthy version \<and> \<not> validate_version (str_of version) \<longrightarrow>
      update_doxyfile fs p version = (Inl (InvalidVersionFormat (str_of version)), fs))"
  by (auto simp: update_doxyfile_def resolve_version_def split: sum.splits)

theorem resolution_failure_writes_nothing_witness:
  "update_doxyfile fs_demo ''Doxyfile'' (Some ''bad-version'') =
     (Inl (InvalidVersionFormat ''bad-version''), fs_demo)"
  using resolution_failure_writes_nothing [of fs_demo "Some ''bad-version''" _ "''Doxyfile''"]
    bad_version_invalid
  by (simp add: str_of_def)

text \<open>
  C3, as claimed: a missing target is reported as \<open>TargetFileMissing\<close> before any
  descriptor is read. In the empty file system the target is missing and the operation
  reports the missing build descriptor.
\<close>

theorem missing_target_counterexample:
  "\<not> path_exists Map.empty ''Doxyfile'' \<and>
   update_doxyfile Map.empty ''Doxyfile'' None =
     (Inl (SourceFileMissing ''CMakeLists.txt''), Map.empty)"
  by (simp add: eval_defs)

text \<open>
  C3, amended. The target is looked for after the version and the project name have been
  resolved: when the target does not exist the operation fails and writes nothing; the
  error is that of the first resolution that fails, and \<open>TargetFileMissing\<close> when both
  succeed.
\<close>

theorem missing_target_error:
  "\<not> path_exists fs p \<Longrightarrow>
   update_doxyfile fs p version =
     (Inl (case resolve_version fs version of
             Inl e \<Rightarrow> e
           | Inr v \<Rightarrow> (case parse_project_name fs ''README.md'' of
                         Inl e \<Rightarrow> e
                       | Inr n \<Rightarrow> TargetFileMissing p)), fs)"
  by (simp add: update_doxyfile_def split: sum.splits)

theorem missing_target_error_witness:
  "\<not> path_exists fs_demo ''Missing'' \<and>
   update_doxyfile fs_demo ''Missing'' (Some ''2.0.0'') =
     (Inl (TargetFileMissing ''Missing''), fs_demo)"
proof -
  have a: "\<not> path_exists fs_demo ''Missing''"
    by (simp add: path_exists_def fs_demo_def)
  show ?thesis
    using missing_target_error [OF a, of "Some ''2.0.0''"] a demo_explicit_version demo_name
    by simp
qed

text \<open>
  C8, as claimed: with an explicit version the outcome does not depend on
  \<open>CMakeLists.txt\<close>. The empty string is an explicit version that sends the operation
  to the build descriptor, and the target may be \<open>CMakeLists.txt\<close> itself; in both cases
  removing the build descriptor changes the outcome.
\<close>

theorem explicit_version_counterexample:
  "fst (update_doxyfile fs_demo ''Doxyfile'' (Some [])) = Inr () \<and>
   fst (update_doxyfile fs_no_cmake ''Doxyfile'' (Some [])) =
     Inl (SourceFileMissing ''CMakeLists.txt'') \<and>
   fst (update_doxyfile fs_demo ''CMakeLists.txt'' (Some ''2.0.0'')) = Inr () \<and>
   fst (update_doxyfile fs_no_cmake ''CMakeLists.txt'' (Some ''2.0.0'')) =
     Inl (TargetFileMissing ''CMakeLists.txt'')"
  by code_simp

text \<open>
  C8, amended. For a non-empty explicit version and a target other than
  \<open>CMakeLists.txt\<close>, two file systems that agree everywhere except at
  \<open>CMakeLists.txt\<close> give the same outcome and final file systems that again agree
  everywhere except at \<open>CMakeLists.txt\<close>, which the operation leaves as it was.
\<close>

theorem explicit_version_ignores_build_descriptor:
  assumes "v \<noteq> []" and "p \<noteq> ''CMakeLists.txt''"
    and "\<forall>q. q \<noteq> ''CMakeLists.txt'' \<longrightarrow> fs1 q = fs2 q"
  shows "fst (update_doxyfile fs1 p (Some v)) = fst (update_doxyfile fs2 p (Some v)) \<and>
         (\<forall>q. q \<noteq> ''CMakeLists.txt'' \<longrightarrow>
            snd (update_doxyfile fs1 p (Some v)) q = snd (update_doxyfile fs2 p (Some v)) q) \<and>
         snd (update_doxyfile fs1 p (Some v)) ''CMakeLists.txt'' = fs1 ''CMakeLists.txt'' \<and>
         snd (update_doxyfile fs2 p (Some v)) ''CMakeLists.txt'' = fs2 ''CMakeLists.txt''"
proof -
  have r: "parse_project_name fs1 ''README.md'' = parse_project_name fs2 ''README.md''"
    using assms(3) by (intro parse_project_name_cong) simp
  have t: "fs1 p = fs2 p" using assms(2,3) by simp
  show ?thesis
    unfolding update_explicit [OF assms(1)] r t
    using assms(2,3) by (auto split: sum.splits option.splits)
qed

theorem explicit_version_ignores_build_descriptor_witness:
  "fst (update_doxyfile fs_demo ''Doxyfile'' (Some ''2.0.0'')) =
     fst (update_doxyfile fs_no_cmake ''Doxyfile'' (Some ''2.0.0''))"
proof -
  have "\<forall>q. q \<noteq> ''CMakeLists.txt'' \<longrightarrow> fs_demo q = fs_no_cmake q"
    by (simp add: fs_no_cmake_def)
  from explicit_version_ignores_build_descriptor [OF _ _ this, of "''2.0.0''" "''Doxyfile''"]
  show ?thesis by simp
qed


section \<open>Version validation\<close>

text \<open>
  C4. The claim rejects every string that is not exactly \<open>D.D.D\<close> or \<open>D.D.D.D\<close>, a
  trailing newline included. The pattern ends in \<open>$\<close>, which Python also matches
  before a newline that ends the text: \<open>1.2.3\<close> followed by a newline is not of the
  shape, validates, and is accepted by the patch operation as an explicit version.
\<close>

theorem trailing_newline_validates:
  "validate_version (''1.2.3'' @ [nl]) \<and> \<not> is_version_shape (''1.2.3'' @ [nl]) \<and>
   fst (update_doxyfile fs_demo ''Doxyfile'' (Some (''1.2.3'' @ [nl]))) = Inr ()"
  by code_simp

section \<open>The version of the build descriptor\<close>

text \<open>
  C6. The claim has the fix level written \<open>set(VERSION_CPPFIX "4")\<close> appended. The fix
  level is searched without \<open>re.IGNORECASE\<close>, unlike the project declaration: the
  lower-case \<open>set\<close> is not found and the version stays \<open>1.2.3\<close>; the upper-case
  \<open>SET\<close> gives \<open>1.2.3.4\<close>.
\<close>

theorem lowercase_set_not_found:
  "parse_cmake_version (fs_with_cmake cmake_lower_fix) ''CMakeLists.txt'' = Inr ''1.2.3'' \<and>
   parse_cmake_version (fs_with_cmake cmake_upper_fix) ''CMakeLists.txt'' = Inr ''1.2.3.4''"
  by code_simp




text \<open>
  C10. The version composed from a match of the project declaration, with or without the
  fix level, always validates, so \<open>_parse_cmake_version\<close> never fails with
  \<open>InvalidVersionFormat\<close>.
\<close>

theorem revalidation_never_fails:
  "(rx_search \<lparr>ignorecase = True, multiline = True\<rparr> project_version_pattern body = Some m \<longrightarrow>
      validate_version
        (case rx_search no_flags cpp_fix_pattern body of
           None \<Rightarrow> group1 m
         | Some m' \<Rightarrow> group1 m @ ''.'' @ group1 m')) \<and>
   parse_cmake_version fs cmake_file \<noteq> Inl (InvalidVersionFormat v)"
  using composed_version_valid [of body m] parse_cmake_version_never_invalid [of fs cmake_file v]
  by (simp add: ic_flags_def)

theorem revalidation_never_fails_witness:
  "validate_version ''1.2.3.4'' \<and>
   parse_cmake_version (fs_with_cmake cmake_upper_fix) ''CMakeLists.txt'' \<noteq>
     Inl (InvalidVersionFormat ''1.2.3.4'')"
  using revalidation_never_fails [of cmake_upper_fix
      "(''project(Foo VERSION 1.2.3)'', Some ''1.2.3'')" "fs_with_cmake cmake_upper_fix"
      "''CMakeLists.txt''" "''1.2.3.4''"]
    upper_fix_project_search upper_fix_fix_search
  by (simp add: ic_flags_def group1_def)

section \<open>The project name\<close>




end
